theory Spec2Isabelle
  imports Main "HOL-Library.AList"
begin

section \<open>Values of the program\<close>

text \<open>
  An event is the \<open>event\<close> argument of the registry's methods: a string, or (the branch of
  \<open>splitNamespaces\<close> for a value that is not a string) an array of segments.
\<close>

datatype event = EvStr string | EvSegs "string list"

text \<open>
  The JavaScript values that reach the registry. A function supplied by a caller is
  \<open>Fn i body\<close>: \<open>i\<close> is its identity and \<open>body\<close> the calls it makes on the registry when
  it is invoked. \<open>HandlerInternal h event listener\<close> is the closure that \<open>many\<close> creates:
  \<open>event\<close> and \<open>listener\<close> are the variables it captures, \<open>h\<close> names the cell that holds
  its captured, mutable \<open>amount\<close>. \<open>Emitter\<close> is the registry object itself.
\<close>

datatype jsval =
    Undefined
  | Null
  | Num int
  | Str string
  | Segs "string list"
  | Emitter
  | Fn nat "action list"
  | HandlerInternal nat event jsval
and action =
    CallOn event jsval
  | CallOff event jsval
  | CallOnAny jsval
  | CallOffAny jsval
  | CallEmit event "jsval list"
  | CallMany event int jsval
  | CallOnce event jsval
  | CallRemoveAllListeners "event option"
  | CallSetMaxListeners int
  | CallSetDelimiter string

datatype error = TypeError string

text \<open>\<open>typeof v === 'function'\<close>\<close>

fun is_function :: "jsval \<Rightarrow> bool" where
  "is_function (Fn i body) = True"
| "is_function (HandlerInternal h e l) = True"
| "is_function v = False"

text \<open>The truth value of \<open>v\<close> in a condition.\<close>

fun truthy :: "jsval \<Rightarrow> bool" where
  "truthy Undefined = False"
| "truthy Null = False"
| "truthy (Num n) = (n \<noteq> 0)"
| "truthy (Str s) = (s \<noteq> [])"
| "truthy v = True"

text \<open>The property \<open>origin\<close> of a value: only \<open>many\<close> sets it, on the closure it creates.\<close>

fun origin :: "jsval \<Rightarrow> jsval" where
  "origin (HandlerInternal h e l) = l"
| "origin v = Undefined"

fun event_val :: "event \<Rightarrow> jsval" where
  "event_val (EvStr s) = Str s"
| "event_val (EvSegs p) = Segs p"

text \<open>The truth value of the optional argument of \<open>removeAllListeners\<close>.\<close>

fun truthy_event :: "event option \<Rightarrow> bool" where
  "truthy_event None = False"
| "truthy_event (Some e) = truthy (event_val e)"

section \<open>String.prototype.split\<close>

text \<open>
  \<open>split_at d skip acc s\<close> cuts \<open>s\<close> at every occurrence of the non-empty separator \<open>d\<close>;
  \<open>acc\<close> is the segment being read and \<open>skip\<close> the number of characters of a separator
  still to pass.
\<close>

fun is_prefix :: "string \<Rightarrow> string \<Rightarrow> bool" where
  "is_prefix [] s = True"
| "is_prefix (c # cs) [] = False"
| "is_prefix (c # cs) (x # xs) = (c = x \<and> is_prefix cs xs)"

fun split_at :: "string \<Rightarrow> nat \<Rightarrow> string \<Rightarrow> string \<Rightarrow> string list" where
  "split_at d skip acc [] = [acc]"
| "split_at d skip acc (c # cs) =
     (if 0 < skip then split_at d (skip - 1) acc cs
      else if is_prefix d (c # cs) then acc # split_at d (length d - 1) [] cs
      else split_at d 0 (acc @ [c]) cs)"

text \<open>
  \<open>s.split(separator)\<close>: with an undefined separator the result is the one-element array
  that holds \<open>s\<close>; with the empty separator, the characters of \<open>s\<close>.
\<close>

fun js_split :: "string \<Rightarrow> string option \<Rightarrow> string list" where
  "js_split s None = [s]"
| "js_split s (Some d) = (if d = [] then map (\<lambda>c. [c]) s else split_at d 0 [] s)"

section \<open>The trie\<close>

text \<open>
  Modelled from the spec: the class \<open>lfr.Trie\<close> (\<open>getKeyValue\<close>, \<open>setKeyValue\<close>, \<open>clear\<close>)
  is not among the source files. The spec, section 3 and 4.1: a tree of nodes, each node
  optionally owns a value and a mapping from segment to child node; \<open>getValue\<close> returns the
  value stored at the exact path, or an absent result; \<open>setValue\<close> walks or creates the nodes
  for each segment in order and, at the terminal node, stores \<open>mergeFn(existing, new)\<close> if a
  value already exists, the new value otherwise, and returns the stored value; \<open>clear\<close>
  discards all nodes.
\<close>

datatype 'v trie = Node "'v option" "(string \<times> 'v trie) list"

definition empty_trie :: "'v trie" where
  "empty_trie = Node None []"

fun getKeyValue :: "string list \<Rightarrow> 'v trie \<Rightarrow> 'v option" where
  "getKeyValue [] (Node v cs) = v"
| "getKeyValue (k # ks) (Node v cs) =
     (case map_of cs k of None \<Rightarrow> None | Some t \<Rightarrow> getKeyValue ks t)"

text \<open>Walks or creates the nodes of the path and stores the value at the terminal node.\<close>

fun store_at :: "string list \<Rightarrow> 'v \<Rightarrow> 'v trie \<Rightarrow> 'v trie" where
  "store_at [] x (Node v cs) = Node (Some x) cs"
| "store_at (k # ks) x (Node v cs) =
     Node v (AList.update k
       (store_at ks x (case map_of cs k of None \<Rightarrow> Node None [] | Some t \<Rightarrow> t)) cs)"

definition clear :: "'v trie \<Rightarrow> 'v trie" where
  "clear t = Node None []"

section \<open>The state\<close>

text \<open>
  An array object that the registry stores: the listeners, and the property \<open>warned\<close> that
  \<open>addListener\<close> sets on it (absent, hence false, on a new array).
\<close>

record listener_list =
  items :: "jsval list"
  warned :: bool

text \<open>An invocation \<open>f.apply(thisArg, args)\<close>.\<close>

datatype call = Call jsval jsval "jsval list"

text \<open>
  \<open>heap\<close> holds the stored array objects, an array's identity being its index;
  \<open>all_'\<close>, \<open>delimiter_'\<close>, \<open>listenersTree_'\<close> and \<open>maxListeners_'\<close> are the fields
  \<open>all_\<close>, \<open>delimiter_\<close>, \<open>listenersTree_\<close> and \<open>maxListeners_\<close> of \<open>lfr.EventEmitter\<close> (a
  name cannot end in an underscore here, so a prime follows it; \<open>all_' = None\<close> is the
  prototype's \<open>null\<close>);
  \<open>amounts\<close> holds the captured variable \<open>amount\<close> of each closure made by \<open>many\<close>;
  \<open>console_warning\<close> tells whether the host's \<open>console\<close> object has a method \<open>warning\<close>
  (the console of browsers and of Node.js has \<open>warn\<close>, \<open>error\<close>, \<open>info\<close>, \<open>log\<close>,
  and no \<open>warning\<close>), and \<open>warnings\<close> lists the calls it received: listener count and event;
  \<open>trace\<close> lists the invocations of functions, in order.
\<close>

record world =
  heap :: "listener_list list"
  all_' :: "nat option"
  delimiter_' :: string
  listenersTree_' :: "nat trie"
  maxListeners_' :: int
  amounts :: "int list"
  console_warning :: bool
  warnings :: "(nat \<times> jsval) list"
  trace :: "call list"

text \<open>\<open>new lfr.EventEmitter()\<close>, in a host with or without \<open>console.warning\<close>.\<close>

definition new_EventEmitter :: "bool \<Rightarrow> world" where
  "new_EventEmitter cw =
     \<lparr>heap = [], all_' = None, delimiter_' = ''.'', listenersTree_' = empty_trie,
      maxListeners_' = 10, amounts = [], console_warning = cw, warnings = [], trace = []\<rparr>"

text \<open>Reading the array object at an address; an address that was never allocated holds nothing.\<close>

definition deref :: "world \<Rightarrow> nat \<Rightarrow> listener_list" where
  "deref w a = (if a < length (heap w) then heap w ! a else \<lparr>items = [], warned = False\<rparr>)"

definition set_items :: "nat \<Rightarrow> jsval list \<Rightarrow> world \<Rightarrow> world" where
  "set_items a xs w = w\<lparr>heap := (heap w)[a := (deref w a)\<lparr>items := xs\<rparr>]\<rparr>"

definition set_warned :: "nat \<Rightarrow> world \<Rightarrow> world" where
  "set_warned a w = w\<lparr>heap := (heap w)[a := (deref w a)\<lparr>warned := True\<rparr>]\<rparr>"

text \<open>A new array object with the given elements; the result is its address.\<close>

definition alloc :: "jsval list \<Rightarrow> world \<Rightarrow> nat \<times> world" where
  "alloc xs w = (length (heap w), w\<lparr>heap := heap w @ [\<lparr>items = xs, warned = False\<rparr>]\<rparr>)"

section \<open>Methods that invoke no listener\<close>

definition getDelimiter :: "world \<Rightarrow> string" where
  "getDelimiter w = delimiter_' w"

definition setDelimiter :: "string \<Rightarrow> world \<Rightarrow> jsval \<times> world" where
  "setDelimiter d w = (Emitter, w\<lparr>delimiter_' := d\<rparr>)"

definition setMaxListeners :: "int \<Rightarrow> world \<Rightarrow> jsval \<times> world" where
  "setMaxListeners m w = (Emitter, w\<lparr>maxListeners_' := m\<rparr>)"

text \<open>
  The property \<open>delimiter\<close> that \<open>splitNamespaces\<close> reads. The constructor and the
  prototype define \<open>delimiter_\<close> (which \<open>getDelimiter\<close> and \<open>setDelimiter\<close> use) and no
  property \<open>delimiter\<close>: the read gives \<open>undefined\<close>.
\<close>

definition this_delimiter :: "world \<Rightarrow> string option" where
  "this_delimiter w = None"

definition splitNamespaces :: "world \<Rightarrow> event \<Rightarrow> string list" where
  "splitNamespaces w ev =
     (case ev of EvStr s \<Rightarrow> js_split s (this_delimiter w) | EvSegs p \<Rightarrow> p)"

definition listeners :: "world \<Rightarrow> event \<Rightarrow> nat option" where
  "listeners w ev = getKeyValue (splitNamespaces w ev) (listenersTree_' w)"

definition listenersAny :: "world \<Rightarrow> nat option" where
  "listenersAny w = all_' w"

text \<open>
  \<open>mergeListenerArrays_(arr1, arr2)\<close>: pushes the elements of \<open>arr2\<close> onto the stored
  array \<open>arr1\<close> and returns \<open>arr1\<close>. The second array is always the literal that
  \<open>addListener\<close> has just built, so it is passed by value.
\<close>

definition mergeListenerArrays_' :: "nat \<Rightarrow> jsval list \<Rightarrow> world \<Rightarrow> nat \<times> world" where
  "mergeListenerArrays_' arr1 arr2 w = (arr1, set_items arr1 (items (deref w arr1) @ arr2) w)"

text \<open>
  Modelled from the spec: \<open>setKeyValue(key, value, opt_mergeFn)\<close> of the absent \<open>lfr.Trie\<close>,
  on the trie of the registry. The array literal passed as value becomes a stored object
  when the trie keeps it.
\<close>

definition setKeyValue ::
  "string list \<Rightarrow> jsval list \<Rightarrow> (nat \<Rightarrow> jsval list \<Rightarrow> world \<Rightarrow> nat \<times> world) option
     \<Rightarrow> world \<Rightarrow> nat \<times> world" where
  "setKeyValue key val mergeFn w =
     (case (getKeyValue key (listenersTree_' w), mergeFn) of
        (Some existing, Some f) \<Rightarrow>
          (let (a, w1) = f existing val w
           in (a, w1\<lparr>listenersTree_' := store_at key a (listenersTree_' w1)\<rparr>))
      | _ \<Rightarrow>
          (let (a, w1) = alloc val w
           in (a, w1\<lparr>listenersTree_' := store_at key a (listenersTree_' w1)\<rparr>)))"

text \<open>\<open>xs.splice(i, 1)\<close>\<close>

definition splice1 :: "'a list \<Rightarrow> nat \<Rightarrow> 'a list" where
  "splice1 xs i = take i xs @ drop (Suc i) xs"

text \<open>The loop of \<open>off\<close>, from index \<open>i\<close>: the array after the loop.\<close>

function off_loop :: "jsval \<Rightarrow> jsval list \<Rightarrow> nat \<Rightarrow> jsval list" where
  "off_loop listener xs i =
     (if i < length xs then
        (if xs ! i = listener \<or> (truthy (origin (xs ! i)) \<and> origin (xs ! i) = listener)
         then splice1 xs i
         else off_loop listener xs (Suc i))
      else xs)"
  by pat_completeness auto
termination
  by (relation "measure (\<lambda>(listener, xs, i). length xs - i)") auto

declare off_loop.simps [simp del]

definition off :: "event \<Rightarrow> jsval \<Rightarrow> world \<Rightarrow> (error + jsval) \<times> world" where
  "off ev listener w =
     (if \<not> is_function listener then (Inl (TypeError ''Listener must be a function''), w)
      else (case listeners w ev of
              Some a \<Rightarrow> (Inr Emitter, set_items a (off_loop listener (items (deref w a)) 0) w)
            | None \<Rightarrow> (Inr Emitter, w)))"

definition removeListener :: "event \<Rightarrow> jsval \<Rightarrow> world \<Rightarrow> (error + jsval) \<times> world" where
  "removeListener = off"

text \<open>\<open>xs.indexOf(v)\<close>, from index \<open>i\<close>: the index of the first element equal to \<open>v\<close>, or -1.\<close>

fun indexOf_from :: "jsval list \<Rightarrow> jsval \<Rightarrow> nat \<Rightarrow> int" where
  "indexOf_from [] v i = -1"
| "indexOf_from (x # xs) v i = (if x = v then int i else indexOf_from xs v (Suc i))"

definition indexOf :: "jsval list \<Rightarrow> jsval \<Rightarrow> int" where
  "indexOf xs v = indexOf_from xs v 0"

definition offAny :: "jsval \<Rightarrow> world \<Rightarrow> (error + jsval) \<times> world" where
  "offAny listener w =
     (if \<not> is_function listener then (Inl (TypeError ''Listener must be a function''), w)
      else (case all_' w of
              None \<Rightarrow> (Inr Emitter, w)
            | Some a \<Rightarrow>
                (let i = indexOf (items (deref w a)) listener
                 in if i < 0 then (Inr Emitter, w)
                    else (Inr Emitter, set_items a (splice1 (items (deref w a)) (nat i)) w))))"

definition onAny :: "jsval \<Rightarrow> world \<Rightarrow> jsval \<times> world" where
  "onAny listener w =
     (let (a, w1) = (case all_' w of
                       None \<Rightarrow> (let (a, w0) = alloc [] w in (a, w0\<lparr>all_' := Some a\<rparr>))
                     | Some a \<Rightarrow> (a, w))
      in (Emitter, set_items a (items (deref w1 a) @ [listener]) w1))"

definition removeAllListeners :: "event option \<Rightarrow> world \<Rightarrow> jsval \<times> world" where
  "removeAllListeners opt_event w =
     (if truthy_event opt_event then
        (Emitter, snd (setKeyValue (splitNamespaces w (the opt_event)) [] None w))
      else (Emitter, w\<lparr>listenersTree_' := clear (listenersTree_' w), all_' := None\<rparr>))"

section \<open>Methods that invoke listeners\<close>

text \<open>
  A listener may call the registry again, and an emission may then never end: the methods
  below take a bound on the depth of calls and of loop iterations and return \<open>None\<close> when
  it is used up. Otherwise a call returns a value or throws, and the state it leaves.
\<close>

type_synonym 'a result = "((error + 'a) \<times> world) option"

definition seq :: "'a result \<Rightarrow> ('a \<Rightarrow> world \<Rightarrow> 'b result) \<Rightarrow> 'b result" where
  "seq m f = (case m of
                None \<Rightarrow> None
              | Some (Inl e, w) \<Rightarrow> Some (Inl e, w)
              | Some (Inr x, w) \<Rightarrow> f x w)"

definition ignore :: "'a result \<Rightarrow> unit result" where
  "ignore m = seq m (\<lambda>x w. Some (Inr (), w))"

text \<open>
  The array that the loop of \<open>emit\<close> runs over: the new array that \<open>concat\<close> returned,
  which only \<open>emit\<close> holds, or the stored array \<open>this.all_\<close>, read again at each iteration.
\<close>

datatype arr_ref = Local "jsval list" | Stored nat

fun arr_items :: "world \<Rightarrow> arr_ref \<Rightarrow> jsval list" where
  "arr_items w (Local xs) = xs"
| "arr_items w (Stored a) = items (deref w a)"

text \<open>
  The elements that \<open>listeners.concat(this.all_)\<close> appends: those of the array
  \<open>this.all_\<close>, or the single element \<open>null\<close> when \<open>this.all_\<close> is \<open>null\<close>.
\<close>

definition concat_arg :: "world \<Rightarrow> jsval list" where
  "concat_arg w = (case all_' w of None \<Rightarrow> [Null] | Some a \<Rightarrow> items (deref w a))"

definition invoked :: "jsval \<Rightarrow> jsval \<Rightarrow> jsval list \<Rightarrow> world \<Rightarrow> world" where
  "invoked f thisArg args w = w\<lparr>trace := trace w @ [Call f thisArg args]\<rparr>"

text \<open>The captured \<open>amount\<close> of a closure; a cell that \<open>many\<close> never made holds nothing.\<close>

definition amount_of :: "world \<Rightarrow> nat \<Rightarrow> int" where
  "amount_of w h = (if h < length (amounts w) then amounts w ! h else 0)"

text \<open>\<open>console.warning(message, count, event)\<close>\<close>

definition console_warning_call :: "nat \<Rightarrow> jsval \<Rightarrow> world \<Rightarrow> (error + unit) \<times> world" where
  "console_warning_call n ev w =
     (if console_warning w then (Inr (), w\<lparr>warnings := warnings w @ [(n, ev)]\<rparr>)
      else (Inl (TypeError ''console.warning is not a function''), w))"

text \<open>\<open>addListener\<close> after the notification \<open>newListener\<close>: lines 54 to 70.\<close>

definition addListener_store :: "event \<Rightarrow> jsval \<Rightarrow> world \<Rightarrow> (error + jsval) \<times> world" where
  "addListener_store ev listener w =
     (let (a, w1) = setKeyValue (splitNamespaces w ev) [listener] (Some mergeListenerArrays_') w
      in if int (length (items (deref w1 a))) > maxListeners_' w1 \<and> \<not> warned (deref w1 a)
         then (case console_warning_call (length (items (deref w1 a))) (event_val ev) w1 of
                 (Inl e, w2) \<Rightarrow> (Inl e, w2)
               | (Inr u, w2) \<Rightarrow> (Inr Emitter, set_warned a w2))
         else (Inr Emitter, w1))"

text \<open>The body of \<open>handlerInternal\<close> up to the call of the wrapped listener.\<close>

definition handlerInternal_count :: "nat \<Rightarrow> event \<Rightarrow> jsval \<Rightarrow> world \<Rightarrow> (error + jsval) \<times> world" where
  "handlerInternal_count h ev listener w =
     (let amount = amount_of w h - 1;
          w1 = w\<lparr>amounts := (amounts w)[h := amount]\<rparr>
      in if amount = 0 then removeListener ev (HandlerInternal h ev listener) w1
         else (Inr Emitter, w1))"

text \<open>
  The methods take the way a function is invoked, \<open>ap\<close> (the meaning of
  \<open>f.apply(thisArg, args)\<close> at the remaining depth of calls), and the bound \<open>n\<close> on the
  iterations of a loop.
\<close>

type_synonym applier = "jsval \<Rightarrow> jsval \<Rightarrow> jsval list \<Rightarrow> world \<Rightarrow> unit result"

primrec emit_loop ::
  "applier \<Rightarrow> nat \<Rightarrow> arr_ref \<Rightarrow> nat \<Rightarrow> jsval list \<Rightarrow> bool \<Rightarrow> world \<Rightarrow> bool result" where
  "emit_loop ap 0 r i args listened w = None"
| "emit_loop ap (Suc n) r i args listened w =
     (if i < length (arr_items w r) then
        (if truthy (arr_items w r ! i) then
           seq (ap (arr_items w r ! i) Emitter args w)
               (\<lambda>x w1. emit_loop ap n r (Suc i) args True w1)
         else emit_loop ap n r (Suc i) args listened w)
      else Some (Inr listened, w))"

definition emit :: "applier \<Rightarrow> nat \<Rightarrow> event \<Rightarrow> jsval list \<Rightarrow> world \<Rightarrow> bool result" where
  "emit ap n ev args w =
     (case (case listeners w ev of
              Some a \<Rightarrow> Some (Local (items (deref w a) @ concat_arg w))
            | None \<Rightarrow> map_option Stored (all_' w)) of
        None \<Rightarrow> Some (Inr False, w)
      | Some r \<Rightarrow> emit_loop ap n r 0 args False w)"

definition addListener :: "applier \<Rightarrow> nat \<Rightarrow> event \<Rightarrow> jsval \<Rightarrow> world \<Rightarrow> jsval result" where
  "addListener ap n ev listener w =
     (if \<not> is_function listener then Some (Inl (TypeError ''Listener must be a function''), w)
      else seq (emit ap n (EvStr ''newListener'') [event_val ev, listener] w)
               (\<lambda>x w1. Some (addListener_store ev listener w1)))"

definition on :: "applier \<Rightarrow> nat \<Rightarrow> event \<Rightarrow> jsval \<Rightarrow> world \<Rightarrow> jsval result" where
  "on = addListener"

definition many :: "applier \<Rightarrow> nat \<Rightarrow> event \<Rightarrow> int \<Rightarrow> jsval \<Rightarrow> world \<Rightarrow> jsval result" where
  "many ap n ev amount listener w =
     (if amount \<le> 0 then Some (Inr Undefined, w)
      else (let h = length (amounts w);
                w1 = w\<lparr>amounts := amounts w @ [amount]\<rparr>
            in seq (on ap n ev (HandlerInternal h ev listener) w1)
                   (\<lambda>x w2. Some (Inr Emitter, w2))))"

definition once :: "applier \<Rightarrow> nat \<Rightarrow> event \<Rightarrow> jsval \<Rightarrow> world \<Rightarrow> jsval result" where
  "once ap n ev listener w = many ap n ev 1 listener w"

text \<open>One call that a caller's function makes on the registry; its result is dropped.\<close>

fun do_action :: "applier \<Rightarrow> nat \<Rightarrow> action \<Rightarrow> world \<Rightarrow> unit result" where
  "do_action ap n (CallOn ev l) w = ignore (on ap n ev l w)"
| "do_action ap n (CallOff ev l) w = ignore (Some (off ev l w))"
| "do_action ap n (CallOnAny l) w = Some (Inr (), snd (onAny l w))"
| "do_action ap n (CallOffAny l) w = ignore (Some (offAny l w))"
| "do_action ap n (CallEmit ev args) w = ignore (emit ap n ev args w)"
| "do_action ap n (CallMany ev amount l) w = ignore (many ap n ev amount l w)"
| "do_action ap n (CallOnce ev l) w = ignore (once ap n ev l w)"
| "do_action ap n (CallRemoveAllListeners opt_event) w =
     Some (Inr (), snd (removeAllListeners opt_event w))"
| "do_action ap n (CallSetMaxListeners m) w = Some (Inr (), snd (setMaxListeners m w))"
| "do_action ap n (CallSetDelimiter d) w = Some (Inr (), snd (setDelimiter d w))"

primrec run_body :: "applier \<Rightarrow> nat \<Rightarrow> action list \<Rightarrow> world \<Rightarrow> unit result" where
  "run_body ap n [] w = Some (Inr (), w)"
| "run_body ap n (a # rest) w = seq (do_action ap n a w) (\<lambda>x w1. run_body ap n rest w1)"

text \<open>
  \<open>f.apply(thisArg, args)\<close> with at most \<open>n\<close> nested calls: the invocation is recorded,
  then the body of the function runs. The body of \<open>handlerInternal\<close> counts down, removes
  the closure when the count reaches zero, and invokes the wrapped listener. A value that
  is no function has no method \<open>apply\<close>.
\<close>

primrec apply_fn :: "nat \<Rightarrow> applier" where
  "apply_fn 0 = (\<lambda>f thisArg args w. None)"
| "apply_fn (Suc n) =
     (\<lambda>f thisArg args w.
        case f of
          Fn i body \<Rightarrow> run_body (apply_fn n) n body (invoked f thisArg args w)
        | HandlerInternal h ev listener \<Rightarrow>
            seq (Some (handlerInternal_count h ev listener (invoked f thisArg args w)))
                (\<lambda>x w1. apply_fn n listener Emitter args w1)
        | _ \<Rightarrow> Some (Inl (TypeError ''apply is not a function''), w))"

declare apply_fn.simps [simp del]

section \<open>Observations and scenarios\<close>

text \<open>The listeners registered at the path of an event, and the unscoped listeners.\<close>

definition path_items :: "world \<Rightarrow> event \<Rightarrow> jsval list" where
  "path_items w ev = (case listeners w ev of None \<Rightarrow> [] | Some a \<Rightarrow> items (deref w a))"

definition unscoped_items :: "world \<Rightarrow> jsval list" where
  "unscoped_items w = (case all_' w of None \<Rightarrow> [] | Some a \<Rightarrow> items (deref w a))"


text \<open>Registers the listeners of a list in turn on one event, up to the first throw.\<close>

primrec on_all :: "applier \<Rightarrow> nat \<Rightarrow> event \<Rightarrow> jsval list \<Rightarrow> world \<Rightarrow> jsval result" where
  "on_all ap n ev [] w = Some (Inr Emitter, w)"
| "on_all ap n ev (l # ls) w = seq (on ap n ev l w) (\<lambda>x w1. on_all ap n ev ls w1)"


text \<open>The functions \<open>Fn 0 []\<close>, ..., \<open>Fn (k - 1) []\<close>.\<close>

definition plain_fns :: "nat \<Rightarrow> jsval list" where
  "plain_fns k = map (\<lambda>i. Fn i []) [0..<k]"

text \<open>
  The state of a new registry after \<open>on('x', f)\<close> for each \<open>f\<close> of \<open>plain_fns k\<close>, as long
  as no warning was due.
\<close>

definition with_listeners :: "bool \<Rightarrow> nat \<Rightarrow> world" where
  "with_listeners cw k =
     (new_EventEmitter cw)
       \<lparr>heap := [\<lparr>items = plain_fns k, warned = False\<rparr>],
        listenersTree_' := Node None [(''x'', Node (Some 0) [])]\<rparr>"

text \<open>
  The entries that \<open>off(event, listener)\<close> is to remove, in the spec's words: an entry
  whose identity equals the listener, or whose back-reference \<open>origin\<close> equals it.
\<close>

definition matches :: "jsval \<Rightarrow> jsval \<Rightarrow> bool" where
  "matches listener x = (x = listener \<or> origin x = listener)"

text \<open>Removing the first entry that satisfies a predicate, and no other.\<close>

fun remove_first :: "('a \<Rightarrow> bool) \<Rightarrow> 'a list \<Rightarrow> 'a list" where
  "remove_first P [] = []"
| "remove_first P (x # xs) = (if P x then xs else x # remove_first P xs)"

text \<open>A path with a closure of \<open>many\<close> and duplicates of the listener it wraps.\<close>

definition with_duplicates :: world where
  "with_duplicates =
     (new_EventEmitter False)
       \<lparr>heap := [\<lparr>items = [Fn 1 [], HandlerInternal 0 (EvStr ''x'') (Fn 2 []), Fn 2 [], Fn 2 []],
                  warned = False\<rparr>],
        listenersTree_' := Node None [(''x'', Node (Some 0) [])],
        amounts := [1]\<rparr>"

text \<open>
  The state of a new registry after \<open>onAny(f3)\<close> and \<open>on('x', f4)\<close>, but for the trace.
\<close>

definition any_and_x :: world where
  "any_and_x =
     (new_EventEmitter False)
       \<lparr>heap := [\<lparr>items = [Fn 3 []], warned = False\<rparr>, \<lparr>items = [Fn 4 []], warned = False\<rparr>],
        all_' := Some 0,
        listenersTree_' := Node None [(''x'', Node (Some 1) [])]\<rparr>"

text \<open>
  Invoking the functions of a list in order on the registry, each in the state the one
  before left, up to the first throw; the result tells whether one was invoked.
\<close>

primrec invoke_in_order ::
  "applier \<Rightarrow> jsval list \<Rightarrow> jsval list \<Rightarrow> bool \<Rightarrow> world \<Rightarrow> bool result" where
  "invoke_in_order ap [] args listened w = Some (Inr listened, w)"
| "invoke_in_order ap (f # fs) args listened w =
     seq (ap f Emitter args w) (\<lambda>x w1. invoke_in_order ap fs args True w1)"

text \<open>
  Two unscoped listeners, the first of which calls \<open>offAny\<close> on the second; the path
  \<open>y\<close> holds an empty array, or nothing.
\<close>

definition a_removes_b :: "bool \<Rightarrow> world" where
  "a_removes_b with_path =
     (new_EventEmitter False)
       \<lparr>heap := [\<lparr>items = [Fn 1 [CallOffAny (Fn 2 [])], Fn 2 []], warned = False\<rparr>,
                  \<lparr>items = [], warned = False\<rparr>],
        all_' := Some 0,
        listenersTree_' :=
          (if with_path then Node None [(''y'', Node (Some 1) [])] else Node None [])\<rparr>"





text \<open>
  The states in which the arrays of the registry are stored objects, each held at one
  place only: every value of the trie is an allocated address, held at one path and
  different from \<open>all_\<close>, and \<open>all_\<close> is an allocated address.
\<close>

definition well_formed :: "world \<Rightarrow> bool" where
  "well_formed w \<longleftrightarrow>
     (\<forall>p a. getKeyValue p (listenersTree_' w) = Some a \<longrightarrow>
        a < length (heap w) \<and> all_' w \<noteq> Some a
        \<and> (\<forall>q. getKeyValue q (listenersTree_' w) = Some a \<longrightarrow> q = p))
     \<and> (\<forall>b. all_' w = Some b \<longrightarrow> b < length (heap w))"

text \<open>Two states with the same trie, the same arrays of listeners and the same counters.\<close>

definition same_listeners :: "world \<Rightarrow> world \<Rightarrow> bool" where
  "same_listeners w w' \<longleftrightarrow>
     listenersTree_' w' = listenersTree_' w \<and> all_' w' = all_' w
     \<and> amounts w' = amounts w \<and> length (heap w') = length (heap w)
     \<and> (\<forall>c. items (deref w' c) = items (deref w c))"

text \<open>The function that an invocation invokes, and the number of invocations of a function.\<close>

fun called :: "call \<Rightarrow> jsval" where
  "called (Call f thisArg args) = f"

definition count_calls :: "jsval \<Rightarrow> call list \<Rightarrow> nat" where
  "count_calls f tr = length (filter (\<lambda>c. called c = f) tr)"





section \<open>Namespace segments\<close>

text \<open>
  C1. The spec: every method resolves the path by splitting the event name by the
  configured delimiter, so that \<open>a.b.c\<close> gives the path \<open>a, b, c\<close> under the default
  delimiter, and \<open>setDelimiter\<close> changes the splitting. The code: \<open>splitNamespaces\<close> reads
  \<open>this.delimiter\<close>, which no one defines, so the event name is never split: \<open>a.b.c\<close>
  gives the one-segment path \<open>a.b.c\<close>, where splitting by the delimiter that \<open>getDelimiter\<close>
  returns would give three segments; and the path of an event is the same before and
  after \<open>setDelimiter\<close>.
\<close>

theorem splitNamespaces_never_splits:
  "splitNamespaces (new_EventEmitter cw) (EvStr ''a.b.c'') = [''a.b.c'']
   \<and> js_split ''a.b.c'' (Some (getDelimiter (new_EventEmitter cw))) = [''a'', ''b'', ''c'']
   \<and> splitNamespaces (snd (setDelimiter d w)) ev = splitNamespaces w ev"
  by (cases ev)
     (simp_all add: splitNamespaces_def this_delimiter_def getDelimiter_def
        new_EventEmitter_def setDelimiter_def)

section \<open>The leak warning\<close>

lemma ten_registrations:
  "on_all (apply_fn 1) 1 (EvStr ''x'') (plain_fns 10) (new_EventEmitter cw)
     = Some (Inr Emitter, with_listeners cw 10)"
  by code_simp

text \<open>
  C2. The spec: with the default maximum of 10, the 11th registration on a path issues
  one warning and succeeds, and the 12th does not warn again. The code calls
  \<open>console.warning\<close>, a method that the console of a browser or of Node.js does not have
  (theirs is \<open>console.warn\<close>). In such a host, after ten registrations on \<open>x\<close>, the 11th
  call of \<open>on\<close> appends the listener and then throws a TypeError before \<open>warned\<close> is set,
  and the 12th call throws again.
\<close>

theorem eleventh_registration_throws:
  "on_all (apply_fn 1) 1 (EvStr ''x'') (plain_fns 10) (new_EventEmitter False)
     = Some (Inr Emitter, with_listeners False 10)
   \<and> on (apply_fn 1) 1 (EvStr ''x'') (Fn 10 []) (with_listeners False 10)
     = Some (Inl (TypeError ''console.warning is not a function''), with_listeners False 11)
   \<and> on (apply_fn 1) 1 (EvStr ''x'') (Fn 11 []) (with_listeners False 11)
     = Some (Inl (TypeError ''console.warning is not a function''), with_listeners False 12)"
  by code_simp

text \<open>
  Where the host does define \<open>console.warning\<close>, the 11th registration warns once and sets
  \<open>warned\<close> on the array of the path, the 12th is pushed onto the same array and does not
  warn.
\<close>

lemma warning_once_where_console_warning_exists:
  "on (apply_fn 1) 1 (EvStr ''x'') (Fn 10 []) (with_listeners True 10)
     = Some (Inr Emitter, (with_listeners True 11)
          \<lparr>heap := [\<lparr>items = plain_fns 11, warned = True\<rparr>],
           warnings := [(11, Str ''x'')]\<rparr>)
   \<and> on (apply_fn 1) 1 (EvStr ''x'') (Fn 11 [])
        ((with_listeners True 11)
          \<lparr>heap := [\<lparr>items = plain_fns 11, warned = True\<rparr>],
           warnings := [(11, Str ''x'')]\<rparr>)
     = Some (Inr Emitter, (with_listeners True 12)
          \<lparr>heap := [\<lparr>items = plain_fns 12, warned = True\<rparr>],
           warnings := [(11, Str ''x'')]\<rparr>)"
  by code_simp

text \<open>
  C3. The spec: after \<open>setMaxListeners(0)\<close> no warning is ever issued, zero meaning
  unlimited (as the comment of \<open>setMaxListeners\<close> says). The code compares the length with
  \<open>maxListeners_\<close> without a case for zero: on a new registry with the maximum set to 0,
  the first registration already takes the warning branch. Where \<open>console.warning\<close>
  exists the warning is issued, with count 1; where it does not, the call throws.
\<close>

theorem zero_maximum_warns_at_first_listener:
  "on (apply_fn 1) 1 (EvStr ''x'') (Fn 0 []) (snd (setMaxListeners 0 (new_EventEmitter True)))
     = Some (Inr Emitter, (with_listeners True 1)
          \<lparr>heap := [\<lparr>items = [Fn 0 []], warned = True\<rparr>],
           maxListeners_' := 0, warnings := [(1, Str ''x'')]\<rparr>)
   \<and> on (apply_fn 1) 1 (EvStr ''x'') (Fn 0 []) (snd (setMaxListeners 0 (new_EventEmitter False)))
     = Some (Inl (TypeError ''console.warning is not a function''),
          (with_listeners False 1)\<lparr>maxListeners_' := 0\<rparr>)"
  by code_simp

section \<open>Chaining\<close>

text \<open>
  C9. The spec: for every amount, \<open>many\<close> returns the registry. The code returns early,
  without a value, when the amount is not positive (its comment promises the emitter):
  \<open>many(ev, 0, listener)\<close> returns \<open>undefined\<close> and registers nothing.
\<close>

theorem many_zero_returns_undefined:
  "many ap n ev 0 (Fn i body) w = Some (Inr Undefined, w)"
  by (simp add: many_def)

section \<open>Basic facts\<close>

lemma seq_simps [simp]:
  "seq None f = None"
  "seq (Some (Inl e, w)) f = Some (Inl e, w)"
  "seq (Some (Inr x, w)) f = f x w"
  by (simp_all add: seq_def)

lemma ignore_simps [simp]:
  "ignore None = None"
  "ignore (Some (Inl e, w)) = Some (Inl e, w)"
  "ignore (Some (Inr x, w)) = Some (Inr (), w)"
  by (simp_all add: ignore_def)

lemma apply_fn_simps [simp]:
  "apply_fn 0 f thisArg args w = None"
  "apply_fn (Suc n) (Fn i body) thisArg args w =
     run_body (apply_fn n) n body (invoked (Fn i body) thisArg args w)"
  "apply_fn (Suc n) (HandlerInternal h ev listener) thisArg args w =
     seq (Some (handlerInternal_count h ev listener
                 (invoked (HandlerInternal h ev listener) thisArg args w)))
         (\<lambda>x w1. apply_fn n listener Emitter args w1)"
  "\<not> is_function f \<Longrightarrow>
     apply_fn (Suc n) f thisArg args w = Some (Inl (TypeError ''apply is not a function''), w)"
  by (cases f; simp add: apply_fn.simps)+





lemma deref_trace [simp]: "deref (w\<lparr>trace := t\<rparr>) a = deref w a"
  by (simp add: deref_def)

lemma arr_items_trace [simp]: "arr_items (w\<lparr>trace := t\<rparr>) r = arr_items w r"
  by (cases r) simp_all

lemma set_items_same [simp]: "set_items a (items (deref w a)) w = w"
  by (simp add: set_items_def deref_def list_update_beyond)

lemmas eval_defs =
  path_items_def unscoped_items_def listeners_def splitNamespaces_def this_delimiter_def
  with_listeners_def new_EventEmitter_def deref_def plain_fns_def matches_def

section \<open>Removal\<close>

lemma remove_first_none: "\<forall>x \<in> set xs. \<not> P x \<Longrightarrow> remove_first P xs = xs"
  by (induction xs) auto

lemma remove_first_split:
  "\<forall>x \<in> set xs. \<not> P x \<Longrightarrow> P y \<Longrightarrow> remove_first P (xs @ y # ys) = xs @ ys"
  by (induction xs) auto

text \<open>The loop of \<open>off\<close>, with its index and \<open>splice\<close>, removes the first match.\<close>

lemma off_loop_remove_first:
  "is_function l \<Longrightarrow> i \<le> length xs \<Longrightarrow>
   off_loop l xs i = take i xs @ remove_first (matches l) (drop i xs)"
proof (induction l xs i rule: off_loop.induct)
  case (1 listener xs i)
  show ?case
  proof (cases "i < length xs")
    case False
    with "1.prems" show ?thesis by (subst off_loop.simps) simp
  next
    case True
    then have d: "drop i xs = xs ! i # drop (Suc i) xs"
      by (simp add: Cons_nth_drop_Suc)
    from "1.prems"(1) have t: "origin (xs ! i) = listener \<Longrightarrow> truthy (origin (xs ! i))"
      by (cases listener) auto
    show ?thesis
    proof (cases "matches listener (xs ! i)")
      case m: True
      with True t show ?thesis
        by (subst off_loop.simps) (auto simp: d matches_def splice1_def)
    next
      case m: False
      then have c: "\<not> (xs ! i = listener
          \<or> (truthy (origin (xs ! i)) \<and> origin (xs ! i) = listener))"
        by (auto simp: matches_def)
      with True have "off_loop listener xs i = off_loop listener xs (Suc i)"
        by (subst off_loop.simps) auto
      also have "\<dots> = take (Suc i) xs @ remove_first (matches listener) (drop (Suc i) xs)"
        using "1.IH" [OF True c "1.prems"(1)] True by simp
      finally show ?thesis using m True
        by (simp add: d take_Suc_conv_app_nth)
    qed
  qed
qed

lemma off_eq:
  "is_function l \<Longrightarrow> listeners w ev = Some a \<Longrightarrow>
   off ev l w = (Inr Emitter, set_items a (remove_first (matches l) (items (deref w a))) w)"
  by (simp add: off_def off_loop_remove_first)

lemma indexOf_from_absent: "v \<notin> set xs \<Longrightarrow> indexOf_from xs v i = -1"
  by (induction xs arbitrary: i) auto

section \<open>Invalid listeners and calls that change nothing\<close>

lemma emit_loop_skip:
  "\<forall>x \<in> set (drop i xs). \<not> truthy x \<Longrightarrow> length xs - i < n \<Longrightarrow>
   emit_loop ap n (Local xs) i args b w = Some (Inr b, w)"
proof (induction n arbitrary: i)
  case 0
  then show ?case by simp
next
  case (Suc n)
  show ?case
  proof (cases "i < length xs")
    case True
    then have "xs ! i \<in> set (drop i xs)"
      by (metis Cons_nth_drop_Suc list.set_intros(1))
    with Suc.prems have nt: "\<not> truthy (xs ! i)" by blast
    have "\<forall>x \<in> set (drop (Suc i) xs). \<not> truthy x"
      using Suc.prems(1) set_drop_subset_set_drop [of i "Suc i" xs] by auto
    then show ?thesis using Suc True nt by simp
  next
    case False
    then show ?thesis by simp
  qed
qed

text \<open>
  C6. With a listener that is no function, \<open>on\<close>, \<open>off\<close>, \<open>removeListener\<close> and \<open>offAny\<close>
  throw the TypeError and leave the whole state as it was (nothing registered, no listener
  invoked). With a function: \<open>off\<close> at a path that holds no array, \<open>off\<close> of a listener
  that no entry of the path matches, and \<open>offAny\<close> of a listener that is not in the
  unscoped array return the registry and change nothing; \<open>emit\<close> of an event with no
  listener at its path and no unscoped listener returns false, throws nothing and changes
  nothing.
\<close>

theorem invalid_listener_throws_rest_is_noop:
  "(\<not> is_function l \<longrightarrow>
       on ap n ev l w = Some (Inl (TypeError ''Listener must be a function''), w)
     \<and> off ev l w = (Inl (TypeError ''Listener must be a function''), w)
     \<and> removeListener ev l w = (Inl (TypeError ''Listener must be a function''), w)
     \<and> offAny l w = (Inl (TypeError ''Listener must be a function''), w))
   \<and> (is_function l \<and> listeners w ev = None \<longrightarrow> off ev l w = (Inr Emitter, w))
   \<and> (is_function l \<and> (\<forall>x \<in> set (path_items w ev). \<not> matches l x)
        \<longrightarrow> off ev l w = (Inr Emitter, w))
   \<and> (is_function l \<and> l \<notin> set (unscoped_items w) \<longrightarrow> offAny l w = (Inr Emitter, w))
   \<and> (path_items w ev = [] \<and> unscoped_items w = [] \<and> 2 \<le> n
        \<longrightarrow> emit ap n ev args w = Some (Inr False, w))"
proof (intro conjI impI)
  assume "\<not> is_function l"
  then show "on ap n ev l w = Some (Inl (TypeError ''Listener must be a function''), w)"
    "off ev l w = (Inl (TypeError ''Listener must be a function''), w)"
    "removeListener ev l w = (Inl (TypeError ''Listener must be a function''), w)"
    "offAny l w = (Inl (TypeError ''Listener must be a function''), w)"
    by (simp_all add: on_def addListener_def off_def removeListener_def offAny_def)
next
  assume "is_function l \<and> listeners w ev = None"
  then show "off ev l w = (Inr Emitter, w)" by (simp add: off_def)
next
  assume h: "is_function l \<and> (\<forall>x \<in> set (path_items w ev). \<not> matches l x)"
  show "off ev l w = (Inr Emitter, w)"
  proof (cases "listeners w ev")
    case None
    with h show ?thesis by (simp add: off_def)
  next
    case (Some a)
    with h have "remove_first (matches l) (items (deref w a)) = items (deref w a)"
      by (intro remove_first_none) (simp add: path_items_def)
    with h Some show ?thesis by (simp add: off_eq)
  qed
next
  assume h: "is_function l \<and> l \<notin> set (unscoped_items w)"
  then show "offAny l w = (Inr Emitter, w)"
    by (auto simp: offAny_def unscoped_items_def indexOf_def indexOf_from_absent
        split: option.splits)
next
  assume h: "path_items w ev = [] \<and> unscoped_items w = [] \<and> 2 \<le> n"
  show "emit ap n ev args w = Some (Inr False, w)"
  proof (cases "listeners w ev")
    case None
    show ?thesis
    proof (cases "all_' w")
      case n2: None
      with None show ?thesis by (simp add: emit_def)
    next
      case (Some b)
      with h have "items (deref w b) = []" by (simp add: unscoped_items_def)
      moreover from h obtain k where "n = Suc k" by (cases n) auto
      ultimately show ?thesis using None Some by (simp add: emit_def)
    qed
  next
    case (Some a)
    with h have e: "items (deref w a) = []" by (simp add: path_items_def)
    have "\<forall>x \<in> set (drop 0 (concat_arg w)). \<not> truthy x" "length (concat_arg w) - 0 < n"
      using h by (auto simp: concat_arg_def unscoped_items_def split: option.splits)
    then have "emit_loop ap n (Local (concat_arg w)) 0 args False w = Some (Inr False, w)"
      by (rule emit_loop_skip)
    with Some e show ?thesis by (simp add: emit_def)
  qed
qed

text \<open>
  On the registry with one listener \<open>f0\<close> at \<open>x\<close>: a string, \<open>null\<close> and \<open>undefined\<close> are
  rejected with the state unchanged; removing at an unknown path, removing listeners that
  are not registered and emitting an unknown event change nothing, and that emission
  returns false.
\<close>

theorem invalid_listener_throws_rest_is_noop_witness:
  "on (apply_fn 1) 1 (EvStr ''x'') (Str ''notAFunction'') (with_listeners False 1)
     = Some (Inl (TypeError ''Listener must be a function''), with_listeners False 1)
   \<and> off (EvStr ''x'') Null (with_listeners False 1)
     = (Inl (TypeError ''Listener must be a function''), with_listeners False 1)
   \<and> offAny Undefined (with_listeners False 1)
     = (Inl (TypeError ''Listener must be a function''), with_listeners False 1)
   \<and> off (EvStr ''unknown'') (Fn 0 []) (with_listeners False 1)
     = (Inr Emitter, with_listeners False 1)
   \<and> off (EvStr ''x'') (Fn 5 []) (with_listeners False 1) = (Inr Emitter, with_listeners False 1)
   \<and> offAny (Fn 0 []) (with_listeners False 1) = (Inr Emitter, with_listeners False 1)
   \<and> emit (apply_fn 2) 2 (EvStr ''unknown'') [] (with_listeners False 1)
     = Some (Inr False, with_listeners False 1)"
  using invalid_listener_throws_rest_is_noop
      [where l = "Str ''notAFunction''" and ap = "apply_fn 1" and n = 1 and ev = "EvStr ''x''"
        and w = "with_listeners False 1"]
    invalid_listener_throws_rest_is_noop
      [where l = Null and ev = "EvStr ''x''" and w = "with_listeners False 1"]
    invalid_listener_throws_rest_is_noop
      [where l = Undefined and w = "with_listeners False 1"]
    invalid_listener_throws_rest_is_noop
      [where l = "Fn 0 []" and w = "with_listeners False 1" and ev = "EvStr ''unknown''"
        and n = 2 and ap = "apply_fn 2" and args = "[]"]
    invalid_listener_throws_rest_is_noop
      [where l = "Fn 5 []" and w = "with_listeners False 1" and ev = "EvStr ''x''"]
  by (simp add: eval_defs)

section \<open>Paths and the trie\<close>

lemma splitNamespaces_simps [simp]:
  "splitNamespaces w (EvStr s) = [s]"
  "splitNamespaces w (EvSegs p) = p"
  by (simp_all add: splitNamespaces_def this_delimiter_def)

lemma splitNamespaces_indep: "splitNamespaces w ev = splitNamespaces w' ev"
  by (cases ev) simp_all

lemma splitNamespaces_update [simp]:
  "splitNamespaces (heap_update f1 w) ev = splitNamespaces w ev"
  "splitNamespaces (all_'_update f2 w) ev = splitNamespaces w ev"
  "splitNamespaces (delimiter_'_update f3 w) ev = splitNamespaces w ev"
  "splitNamespaces (listenersTree_'_update f4 w) ev = splitNamespaces w ev"
  "splitNamespaces (maxListeners_'_update f5 w) ev = splitNamespaces w ev"
  "splitNamespaces (amounts_update f6 w) ev = splitNamespaces w ev"
  "splitNamespaces (warnings_update f7 w) ev = splitNamespaces w ev"
  "splitNamespaces (trace_update f8 w) ev = splitNamespaces w ev"
  by (rule splitNamespaces_indep)+

lemma getKeyValue_leaf [simp]: "getKeyValue p (Node None []) = None"
  by (cases p) auto

lemma getKeyValue_store_at:
  "getKeyValue p (store_at k x t) = (if p = k then Some x else getKeyValue p t)"
proof (induction k x t arbitrary: p rule: store_at.induct)
  case (1 x v cs)
  then show ?case by (cases p) auto
next
  case (2 k ks x v cs)
  then show ?case
    by (cases p) (auto simp: update_conv' split: option.splits)
qed

lemma getKeyValue_clear [simp]: "getKeyValue p (clear t) = None"
  by (simp add: clear_def)

section \<open>Removing all listeners\<close>

text \<open>
  With an argument that counts as true (a non-empty string, or an array of segments),
  \<open>removeAllListeners\<close> stores a new empty array at the exact path of the event and
  returns the registry: the path has no listener afterwards, the value at every other
  path of the trie is the same as before, so is every stored array, and so is the
  unscoped array. With no argument, or one that counts as false, it clears the trie and
  deletes \<open>all_\<close>: afterwards \<open>listeners(x)\<close> is absent for every \<open>x\<close> and
  \<open>listenersAny()\<close> is absent.
\<close>

lemma removeAllListeners_frame:
  "(truthy_event (Some ev) \<longrightarrow>
      removeAllListeners (Some ev) w =
        (Emitter, w\<lparr>heap := heap w @ [\<lparr>items = [], warned = False\<rparr>],
                    listenersTree_' :=
                      store_at (splitNamespaces w ev) (length (heap w)) (listenersTree_' w)\<rparr>)
      \<and> path_items (snd (removeAllListeners (Some ev) w)) ev = []
      \<and> (\<forall>p. p \<noteq> splitNamespaces w ev \<longrightarrow>
            getKeyValue p (listenersTree_' (snd (removeAllListeners (Some ev) w)))
              = getKeyValue p (listenersTree_' w))
      \<and> (\<forall>a. deref (snd (removeAllListeners (Some ev) w)) a = deref w a)
      \<and> listenersAny (snd (removeAllListeners (Some ev) w)) = listenersAny w)
   \<and> (\<not> truthy_event opt_event \<longrightarrow>
        fst (removeAllListeners opt_event w) = Emitter
      \<and> (\<forall>x. listeners (snd (removeAllListeners opt_event w)) x = None)
      \<and> listenersAny (snd (removeAllListeners opt_event w)) = None
      \<and> heap (snd (removeAllListeners opt_event w)) = heap w)"
proof (intro conjI impI allI)
  assume t: "truthy_event (Some ev)"
  then show r: "removeAllListeners (Some ev) w =
        (Emitter, w\<lparr>heap := heap w @ [\<lparr>items = [], warned = False\<rparr>],
                    listenersTree_' :=
                      store_at (splitNamespaces w ev) (length (heap w)) (listenersTree_' w)\<rparr>)"
    by (simp add: removeAllListeners_def setKeyValue_def alloc_def split: option.splits)
  show "path_items (snd (removeAllListeners (Some ev) w)) ev = []"
    unfolding r
    by (simp add: path_items_def listeners_def getKeyValue_store_at deref_def)
  show "listenersAny (snd (removeAllListeners (Some ev) w)) = listenersAny w"
    unfolding r by (simp add: listenersAny_def)
  {
    fix a
    show "deref (snd (removeAllListeners (Some ev) w)) a = deref w a"
      unfolding r by (auto simp: deref_def nth_append)
  }
  fix p
  assume "p \<noteq> splitNamespaces w ev"
  then show "getKeyValue p (listenersTree_' (snd (removeAllListeners (Some ev) w)))
              = getKeyValue p (listenersTree_' w)"
    unfolding r by (simp add: getKeyValue_store_at)
next
  assume "\<not> truthy_event opt_event"
  then show "fst (removeAllListeners opt_event w) = Emitter"
    "listenersAny (snd (removeAllListeners opt_event w)) = None"
    "heap (snd (removeAllListeners opt_event w)) = heap w"
    "\<And>x. listeners (snd (removeAllListeners opt_event w)) x = None"
    by (simp_all add: removeAllListeners_def listenersAny_def listeners_def)
qed

text \<open>
  On the registry with \<open>f4\<close> at \<open>x\<close> and the unscoped listener \<open>f3\<close>:
  \<open>removeAllListeners('x')\<close> empties the path \<open>x\<close> and keeps the unscoped array;
  \<open>removeAllListeners()\<close> leaves neither.
\<close>

lemma removeAllListeners_frame_example:
  "path_items (snd (removeAllListeners (Some (EvStr ''x'')) any_and_x)) (EvStr ''x'') = []
   \<and> listenersAny (snd (removeAllListeners (Some (EvStr ''x'')) any_and_x)) = Some 0
   \<and> listeners (snd (removeAllListeners None any_and_x)) (EvStr ''x'') = None
   \<and> listenersAny (snd (removeAllListeners None any_and_x)) = None"
proof -
  have t: "truthy_event (Some (EvStr ''x''))" and n: "\<not> truthy_event None"
    by simp_all
  have a: "listenersAny any_and_x = Some 0"
    by (simp add: any_and_x_def listenersAny_def)
  from removeAllListeners_frame [where ev = "EvStr ''x''" and w = any_and_x and opt_event = None,
      THEN conjunct1, THEN mp, OF t, THEN conjunct2]
    removeAllListeners_frame [where ev = "EvStr ''x''" and w = any_and_x and opt_event = None,
      THEN conjunct2, THEN mp, OF n]
  show ?thesis by (simp add: a)
qed

text \<open>
  C8. The spec: with an event name, \<open>removeAllListeners\<close> resets the list of that exact
  path only, leaving every other path and the unscoped list as they are (the comment of
  the method: all listeners, or those of the specified event). The code tests the truth
  value of the argument, and the empty string counts as false. The registry accepts the
  empty string as an event name (\<open>on('', f5)\<close> registers \<open>f5\<close> at its path), but
  \<open>removeAllListeners('')\<close> takes the branch for no argument: on the registry with \<open>f4\<close>
  at \<open>x\<close> and the unscoped listener \<open>f3\<close>, the array of the sibling path \<open>x\<close> and the
  unscoped array are both gone afterwards.
\<close>

theorem removeAllListeners_empty_name_clears_everything:
  "map_option (\<lambda>r. path_items (snd r) (EvStr '''')) (on (apply_fn 1) 3 (EvStr '''') (Fn 5 []) any_and_x)
     = Some [Fn 5 []]
   \<and> listeners any_and_x (EvStr ''x'') = Some 1
   \<and> listenersAny any_and_x = Some 0
   \<and> listeners (snd (removeAllListeners (Some (EvStr '''')) any_and_x)) (EvStr ''x'') = None
   \<and> listenersAny (snd (removeAllListeners (Some (EvStr '''')) any_and_x)) = None"
  by code_simp

section \<open>The array that an emission runs over\<close>

lemma emit_loop_local:
  "length xs - i < n \<Longrightarrow>
   emit_loop ap n (Local xs) i args b w = invoke_in_order ap (filter truthy (drop i xs)) args b w"
proof (induction n arbitrary: i b w)
  case 0
  then show ?case by simp
next
  case (Suc n)
  show ?case
  proof (cases "i < length xs")
    case False
    then show ?thesis by simp
  next
    case True
    then have d: "drop i xs = xs ! i # drop (Suc i) xs"
      by (simp add: Cons_nth_drop_Suc)
    from True Suc.prems have "length xs - Suc i < n" by simp
    then have ih: "\<And>b. emit_loop ap n (Local xs) (Suc i) args b
        = invoke_in_order ap (filter truthy (drop (Suc i) xs)) args b"
      by (intro ext Suc.IH)
    show ?thesis using True by (simp add: d ih)
  qed
qed

text \<open>
  C10. When the path of the event holds an array, \<open>emit\<close> equals invoking, in order, the
  entries that count as true of the concatenation taken at the start (the array of the
  path, then the unscoped array or \<open>null\<close>), whatever the invocations do to the registry:
  \<open>ap\<close> is arbitrary, so no removal in a listener skips or repeats an entry. When the
  path holds nothing, \<open>emit\<close> runs its loop on the stored unscoped array itself; with the
  unscoped listeners \<open>a\<close>, \<open>b\<close>, where \<open>a\<close> calls \<open>offAny(b)\<close>, emitting an event without
  array invokes \<open>a\<close> only: \<open>b\<close>, present when the emission began, does not run.
\<close>

theorem emit_runs_over_a_copy_of_the_path_array:
  "(listeners w ev = Some a \<and> length (items (deref w a) @ concat_arg w) < n \<longrightarrow>
      emit ap n ev args w
        = invoke_in_order ap (filter truthy (items (deref w a) @ concat_arg w)) args False w)
   \<and> (listeners w ev = None \<and> all_' w = Some b \<longrightarrow>
        emit ap n ev args w = emit_loop ap n (Stored b) 0 args False w)
   \<and> listeners (a_removes_b False) (EvStr ''y'') = None
   \<and> unscoped_items (a_removes_b False) = [Fn 1 [CallOffAny (Fn 2 [])], Fn 2 []]
   \<and> emit (apply_fn 2) 3 (EvStr ''y'') [] (a_removes_b False)
       = Some (Inr True,
           (a_removes_b False)
             \<lparr>heap := [\<lparr>items = [Fn 1 [CallOffAny (Fn 2 [])]], warned = False\<rparr>,
                        \<lparr>items = [], warned = False\<rparr>],
              trace := [Call (Fn 1 [CallOffAny (Fn 2 [])]) Emitter []]\<rparr>)"
proof (intro conjI impI)
  assume "listeners w ev = Some a \<and> length (items (deref w a) @ concat_arg w) < n"
  then show "emit ap n ev args w
        = invoke_in_order ap (filter truthy (items (deref w a) @ concat_arg w)) args False w"
    using emit_loop_local [of "items (deref w a) @ concat_arg w" 0 n ap args False w]
    by (simp add: emit_def)
next
  assume "listeners w ev = None \<and> all_' w = Some b"
  then show "emit ap n ev args w = emit_loop ap n (Stored b) 0 args False w"
    by (simp add: emit_def)
qed code_simp+

text \<open>
  The same two unscoped listeners, with an empty array at the path \<open>y\<close>: the emission
  invokes \<open>a\<close>, which removes \<open>b\<close> from the unscoped array, and still invokes \<open>b\<close>.
\<close>

theorem emit_runs_over_a_copy_of_the_path_array_witness:
  "emit (apply_fn 2) 3 (EvStr ''y'') [] (a_removes_b True)
       = Some (Inr True,
           (a_removes_b True)
             \<lparr>heap := [\<lparr>items = [Fn 1 [CallOffAny (Fn 2 [])]], warned = False\<rparr>,
                        \<lparr>items = [], warned = False\<rparr>],
              trace := [Call (Fn 1 [CallOffAny (Fn 2 [])]) Emitter [],
                        Call (Fn 2 []) Emitter []]\<rparr>)"
proof -
  have l: "listeners (a_removes_b True) (EvStr ''y'') = Some 1"
    by code_simp
  have n: "length (items (deref (a_removes_b True) 1) @ concat_arg (a_removes_b True)) < 3"
    by code_simp
  have f: "filter truthy (items (deref (a_removes_b True) 1) @ concat_arg (a_removes_b True))
     = [Fn 1 [CallOffAny (Fn 2 [])], Fn 2 []]"
    by code_simp
  have "invoke_in_order (apply_fn 2) [Fn 1 [CallOffAny (Fn 2 [])], Fn 2 []] [] False
      (a_removes_b True)
    = Some (Inr True,
           (a_removes_b True)
             \<lparr>heap := [\<lparr>items = [Fn 1 [CallOffAny (Fn 2 [])]], warned = False\<rparr>,
                        \<lparr>items = [], warned = False\<rparr>],
              trace := [Call (Fn 1 [CallOffAny (Fn 2 [])]) Emitter [],
                        Call (Fn 2 []) Emitter []]\<rparr>)"
    by code_simp
  with emit_runs_over_a_copy_of_the_path_array
      [where w = "a_removes_b True" and ev = "EvStr ''y''" and a = 1 and n = 3
        and ap = "apply_fn 2" and args = "[]", THEN conjunct1] l n f
  show ?thesis by simp
qed

section \<open>Emission to listeners that make no call on the registry\<close>



section \<open>Registration order\<close>

lemma well_formed_new [simp]: "well_formed (new_EventEmitter cw)"
  by (simp add: well_formed_def new_EventEmitter_def empty_trie_def)




lemma obs_set_warned [simp]:
  "items (deref (set_warned a w) c) = items (deref w c)"
  "listenersTree_' (set_warned a w) = listenersTree_' w"
  "all_' (set_warned a w) = all_' w"
  "length (heap (set_warned a w)) = length (heap w)"
  "trace (set_warned a w) = trace w"
  "amounts (set_warned a w) = amounts w"
  by (auto simp: set_warned_def deref_def nth_list_update)

lemma deref_warnings [simp]: "deref (w\<lparr>warnings := x\<rparr>) c = deref w c"
  by (simp add: deref_def)


lemma same_listeners_refl [simp]: "same_listeners w w"
  by (simp add: same_listeners_def)

lemma same_listeners_trace [simp]: "same_listeners w (w\<lparr>trace := t\<rparr>)"
  by (simp add: same_listeners_def)






















section \<open>Removing one listener\<close>

lemma getKeyValue_single:
  "getKeyValue p (Node None [(k, Node (Some a) [])]) = (if p = [k] then Some a else None)"
proof (cases p)
  case Nil
  then show ?thesis by simp
next
  case (Cons q qs)
  then show ?thesis by (cases qs) auto
qed

lemma well_formed_with_duplicates: "well_formed with_duplicates"
  by (simp add: well_formed_def with_duplicates_def new_EventEmitter_def getKeyValue_single)

lemma path_items_off:
  assumes "is_function l"
  shows "path_items (snd (off ev l w)) ev = remove_first (matches l) (path_items w ev)"
proof (cases "listeners w ev")
  case None
  with assms show ?thesis by (simp add: off_def path_items_def)
next
  case (Some a)
  have l: "listeners (set_items a (remove_first (matches l) (items (deref w a))) w) ev = Some a"
    using Some by (simp add: listeners_def set_items_def)
  have i: "items (deref (set_items a (remove_first (matches l) (items (deref w a))) w) a)
      = remove_first (matches l) (items (deref w a))"
    by (simp add: set_items_def deref_def)
  from Some l i assms show ?thesis
    by (simp add: off_eq path_items_def)
qed

text \<open>
  C7. For a function \<open>l\<close>, \<open>off(ev, l)\<close> returns the registry, and the listeners at the
  path of \<open>ev\<close> afterwards are those before without the first entry that is \<open>l\<close> or
  whose \<open>origin\<close> is \<open>l\<close>: if they were \<open>xs @ y # ys\<close> with \<open>y\<close> the first match, they
  are \<open>xs @ ys\<close>, so later matches in \<open>ys\<close> stay. With no match nothing changes at all.
  The trie, \<open>all_\<close> and every other stored array are as before; in a state where each
  array is held at one place, so are the listeners of every other path and the unscoped
  listeners.
\<close>

theorem off_removes_first_match_only:
  assumes "is_function l"
  shows "off ev l w =
           (Inr Emitter,
            case listeners w ev of
              None \<Rightarrow> w
            | Some a \<Rightarrow> set_items a (remove_first (matches l) (items (deref w a))) w)
         \<and> path_items (snd (off ev l w)) ev = remove_first (matches l) (path_items w ev)
         \<and> (\<forall>xs y ys. path_items w ev = xs @ y # ys
               \<and> (\<forall>x \<in> set xs. \<not> matches l x) \<and> matches l y
               \<longrightarrow> path_items (snd (off ev l w)) ev = xs @ ys)
         \<and> ((\<forall>x \<in> set (path_items w ev). \<not> matches l x) \<longrightarrow> off ev l w = (Inr Emitter, w))
         \<and> (\<forall>ev'. listeners (snd (off ev l w)) ev' = listeners w ev')
         \<and> listenersAny (snd (off ev l w)) = listenersAny w
         \<and> (\<forall>a c. listeners w ev = Some a \<and> c \<noteq> a \<longrightarrow> deref (snd (off ev l w)) c = deref w c)
         \<and> (well_formed w \<longrightarrow>
              (\<forall>ev'. splitNamespaces w ev' \<noteq> splitNamespaces w ev \<longrightarrow>
                 path_items (snd (off ev l w)) ev' = path_items w ev')
              \<and> unscoped_items (snd (off ev l w)) = unscoped_items w)"
proof -
  have 1: "off ev l w =
           (Inr Emitter,
            case listeners w ev of
              None \<Rightarrow> w
            | Some a \<Rightarrow> set_items a (remove_first (matches l) (items (deref w a))) w)"
    using assms by (cases "listeners w ev") (simp_all add: off_eq, simp add: off_def)
  have 2: "path_items (snd (off ev l w)) ev = remove_first (matches l) (path_items w ev)"
    using assms by (rule path_items_off)
  have 3: "\<forall>xs y ys. path_items w ev = xs @ y # ys
               \<and> (\<forall>x \<in> set xs. \<not> matches l x) \<and> matches l y
               \<longrightarrow> path_items (snd (off ev l w)) ev = xs @ ys"
    unfolding 2 by (auto simp: remove_first_split)
  have 4: "(\<forall>x \<in> set (path_items w ev). \<not> matches l x) \<longrightarrow> off ev l w = (Inr Emitter, w)"
    unfolding 1 by (cases "listeners w ev") (simp_all add: path_items_def remove_first_none)
  have 5: "\<forall>ev'. listeners (snd (off ev l w)) ev' = listeners w ev'"
    unfolding 1 by (cases "listeners w ev") (simp_all add: listeners_def set_items_def)
  have 6: "listenersAny (snd (off ev l w)) = listenersAny w"
    unfolding 1 by (cases "listeners w ev") (simp_all add: listenersAny_def set_items_def)
  have 7: "\<forall>a c. listeners w ev = Some a \<and> c \<noteq> a \<longrightarrow> deref (snd (off ev l w)) c = deref w c"
    unfolding 1 by (auto simp: set_items_def deref_def)
  have 8: "well_formed w \<longrightarrow>
              (\<forall>ev'. splitNamespaces w ev' \<noteq> splitNamespaces w ev \<longrightarrow>
                 path_items (snd (off ev l w)) ev' = path_items w ev')
              \<and> unscoped_items (snd (off ev l w)) = unscoped_items w"
  proof (intro impI conjI allI)
    assume wf: "well_formed w"
    then have v2: "\<And>q c. getKeyValue q (listenersTree_' w) = Some c \<Longrightarrow> all_' w \<noteq> Some c"
      and v3: "\<And>q q' c. getKeyValue q (listenersTree_' w) = Some c \<Longrightarrow>
           getKeyValue q' (listenersTree_' w) = Some c \<Longrightarrow> q' = q"
      unfolding well_formed_def by blast+
    show "unscoped_items (snd (off ev l w)) = unscoped_items w"
    proof (cases "listeners w ev")
      case None
      then show ?thesis unfolding 1 by simp
    next
      case (Some a)
      then have "all_' w \<noteq> Some a" using v2 by (simp add: listeners_def)
      with Some 7 show ?thesis
        unfolding 1 by (auto simp: unscoped_items_def set_items_def split: option.splits)
    qed
    fix ev'
    assume ne: "splitNamespaces w ev' \<noteq> splitNamespaces w ev"
    show "path_items (snd (off ev l w)) ev' = path_items w ev'"
    proof (cases "listeners w ev")
      case None
      then show ?thesis unfolding 1 by simp
    next
      case (Some a)
      have "listeners w ev' \<noteq> Some a"
        using Some ne v3 by (auto simp: listeners_def)
      with Some 5 7 show ?thesis
        by (auto simp: path_items_def split: option.splits)
    qed
  qed
  from 1 2 3 4 5 6 7 8 show ?thesis by blast
qed

text \<open>
  On the path \<open>x\<close> with the entries \<open>f1\<close>, a closure wrapping \<open>f2\<close>, \<open>f2\<close>, \<open>f2\<close>:
  after \<open>off('x', f2)\<close> the path holds \<open>f1\<close>, \<open>f2\<close>, \<open>f2\<close> (the closure, the first
  match, is gone, both later \<open>f2\<close> stay), the other paths and the unscoped listeners are
  as before; \<open>off('x', f3)\<close> changes nothing.
\<close>

theorem off_removes_first_match_only_witness:
  "path_items with_duplicates (EvStr ''x'')
     = [Fn 1 [], HandlerInternal 0 (EvStr ''x'') (Fn 2 []), Fn 2 [], Fn 2 []]
   \<and> fst (off (EvStr ''x'') (Fn 2 []) with_duplicates) = Inr Emitter
   \<and> path_items (snd (off (EvStr ''x'') (Fn 2 []) with_duplicates)) (EvStr ''x'')
     = [Fn 1 [], Fn 2 [], Fn 2 []]
   \<and> path_items (snd (off (EvStr ''x'') (Fn 2 []) with_duplicates)) (EvStr ''y'') = []
   \<and> unscoped_items (snd (off (EvStr ''x'') (Fn 2 []) with_duplicates)) = []
   \<and> off (EvStr ''x'') (Fn 3 []) with_duplicates = (Inr Emitter, with_duplicates)"
proof -
  have p: "path_items with_duplicates (EvStr ''x'')
     = [Fn 1 [], HandlerInternal 0 (EvStr ''x'') (Fn 2 []), Fn 2 [], Fn 2 []]"
    and y: "path_items with_duplicates (EvStr ''y'') = []"
    and u: "unscoped_items with_duplicates = []"
    by (simp_all add: eval_defs with_duplicates_def)
  have f: "is_function (Fn 2 [])" by simp
  note t = off_removes_first_match_only [of "Fn 2 []" "EvStr ''x''" with_duplicates, OF f]
  have 1: "fst (off (EvStr ''x'') (Fn 2 []) with_duplicates) = Inr Emitter"
    using t [THEN conjunct1] by simp
  have 2: "path_items (snd (off (EvStr ''x'') (Fn 2 []) with_duplicates)) (EvStr ''x'')
     = [Fn 1 [], Fn 2 [], Fn 2 []]"
    using t [THEN conjunct2, THEN conjunct1] by (simp add: p matches_def)
  note r = t [THEN conjunct2, THEN conjunct2, THEN conjunct2, THEN conjunct2, THEN conjunct2,
      THEN conjunct2, THEN conjunct2, THEN mp, OF well_formed_with_duplicates]
  have 3: "path_items (snd (off (EvStr ''x'') (Fn 2 []) with_duplicates)) (EvStr ''y'') = []"
    using r [THEN conjunct1, THEN spec, of "EvStr ''y''"] by (simp add: y)
  have 4: "unscoped_items (snd (off (EvStr ''x'') (Fn 2 []) with_duplicates)) = []"
    using r [THEN conjunct2] by (simp add: u)
  have 5: "off (EvStr ''x'') (Fn 3 []) with_duplicates = (Inr Emitter, with_duplicates)"
    using off_removes_first_match_only [of "Fn 3 []" "EvStr ''x''" with_duplicates, THEN conjunct2, THEN conjunct2,
        THEN conjunct2, THEN conjunct1]
    by (simp add: p matches_def)
  from p 1 2 3 4 5 show ?thesis by (intro conjI)
qed

section \<open>Listeners for a number of emissions\<close>



lemma deref_amounts [simp]: "deref (w\<lparr>amounts := x\<rparr>) c = deref w c"
  by (simp add: deref_def)


lemma count_calls_append [simp]:
  "count_calls f (xs @ ys) = count_calls f xs + count_calls f ys"
  by (simp add: count_calls_def)


lemma count_calls_simps [simp]:
  "count_calls f [] = 0"
  "count_calls f (c # cs) = (if called c = f then 1 else 0) + count_calls f cs"
  by (simp_all add: count_calls_def)













end
